theory Spec2Isabelle
  imports Main "HOL-Library.Word"
begin

section \<open>JavaScript values used by server.js\<close>

text \<open>
  The values that \<open>JSON.parse\<close> returns. A number is kept as the text that ECMAScript's
  \<open>ToString\<close> gives for it, which is all this program can observe of a number (it only
  ever joins values into a string or hands them back to \<open>JSON.stringify\<close>). An object is
  the list of its own properties, each key once; \<open>undefined\<close> is \<open>None\<close> of
  \<open>json option\<close>. A \<open>char\<close> stands for a code unit below 256.
\<close>

datatype json =
    JNull
  | JBool bool
  | JNum string
  | JStr string
  | JArr "json list"
  | JObj "(string \<times> json) list"

text \<open>Thrown values: every one the program meets is an \<open>Error\<close> with a \<open>message\<close>.\<close>

datatype js_error =
    SyntaxError string
  | TypeError string
  | ProviderError string

fun message :: "js_error \<Rightarrow> string" where
  "message (SyntaxError m) = m"
| "message (TypeError m) = m"
| "message (ProviderError m) = m"

text \<open>\<open>JSON.parse\<close> belongs to the runtime: the handlers take it as a parameter.\<close>

type_synonym parser = "string \<Rightarrow> js_error + json"

definition cannot_read :: "string \<Rightarrow> string \<Rightarrow> string" where
  "cannot_read what k =
     ''Cannot read properties of '' @ what @ '' (reading '' @ [CHR 0x27] @ k @ [CHR 0x27] @ '')''"

text \<open>
  Property access \<open>payload.k\<close> for the two keys the handler reads, \<open>type\<close> and \<open>data\<close>:
  \<open>null\<close> throws, an object gives its own property or \<open>undefined\<close>, and every other value
  (boolean, number, string, array) has neither property.
\<close>

fun get_prop :: "json \<Rightarrow> string \<Rightarrow> js_error + json option" where
  "get_prop JNull k = Inl (TypeError (cannot_read ''null'' k))"
| "get_prop (JObj kvs) k = Inr (map_of kvs k)"
| "get_prop v k = Inr None"

text \<open>\<open>Array.prototype.join\<close> on strings: the elements with the separator between them.\<close>

fun join :: "string \<Rightarrow> string list \<Rightarrow> string" where
  "join sep [] = []"
| "join sep [x] = x"
| "join sep (x # y # ys) = x @ sep @ join sep (y # ys)"

text \<open>The results of conversions made in order, up to the first one that throws.\<close>

fun sequence :: "(js_error + 'a) list \<Rightarrow> js_error + 'a list" where
  "sequence [] = Inr []"
| "sequence (Inl e # rs) = Inl e"
| "sequence (Inr x # rs) = (case sequence rs of Inl e \<Rightarrow> Inl e | Inr xs \<Rightarrow> Inr (x # xs))"

text \<open>
  \<open>ToString\<close> of a parsed value. An array converts by \<open>join(",")\<close>, in which \<open>null\<close> gives
  the empty string. An object converts through \<open>Object.prototype.toString\<close> unless it has
  an own property \<open>toString\<close>: a parsed value is never callable, \<open>valueOf\<close> then gives no
  primitive either, and the conversion throws.
\<close>

fun to_string :: "json \<Rightarrow> js_error + string" where
  "to_string JNull = Inr ''null''"
| "to_string (JBool b) = Inr (if b then ''true'' else ''false'')"
| "to_string (JNum n) = Inr n"
| "to_string (JStr s) = Inr s"
| "to_string (JArr xs) =
     (case sequence (map (\<lambda>x. if x = JNull then Inr [] else to_string x) xs) of
        Inl e \<Rightarrow> Inl e
      | Inr ss \<Rightarrow> Inr (join '','' ss))"
| "to_string (JObj kvs) =
     (if map_of kvs ''toString'' = None then Inr ''[object Object]''
      else Inl (TypeError ''Cannot convert object to primitive value''))"

text \<open>What \<open>join\<close> makes of one array element: \<open>undefined\<close> and \<open>null\<close> give the empty string.\<close>

fun join_element :: "json option \<Rightarrow> js_error + string" where
  "join_element None = Inr []"
| "join_element (Some JNull) = Inr []"
| "join_element (Some v) = to_string v"

text \<open>\<open>xs.join(sep)\<close>: it throws when the conversion of an element throws.\<close>

definition array_join :: "string \<Rightarrow> json option list \<Rightarrow> js_error + string" where
  "array_join sep xs =
     (case sequence (map join_element xs) of
        Inl e \<Rightarrow> Inl e
      | Inr ss \<Rightarrow> Inr (join sep ss))"

text \<open>
  \<open>String.prototype.trim\<close>: white space and line terminators are removed at both ends.
  Of ECMAScript's white space these are the characters a \<open>char\<close> can hold.
\<close>

definition is_space :: "char \<Rightarrow> bool" where
  "is_space c = (c \<in> set [CHR 0x09, CHR 0x0A, CHR 0x0B, CHR 0x0C, CHR 0x0D, CHR 0x20, CHR 0xA0])"

definition trim :: "string \<Rightarrow> string" where
  "trim s = rev (dropWhile is_space (rev (dropWhile is_space s)))"

section \<open>The session store and the socket\<close>

text \<open>\<open>const sessions = new Map(); // {sessionId: {chunks:[], transcript:''}}\<close>\<close>

record session =
  chunks :: "json option list"
  transcript :: string

type_synonym store = "string \<rightharpoonup> session"

definition Map_get :: "store \<Rightarrow> string \<Rightarrow> session option" where
  "Map_get st k = st k"

definition Map_set :: "store \<Rightarrow> string \<Rightarrow> session \<Rightarrow> store" where
  "Map_set st k v = st(k \<mapsto> v)"

definition Map_delete :: "store \<Rightarrow> string \<Rightarrow> store" where
  "Map_delete st k = st(k := None)"

text \<open>
  The socket. \<open>sent\<close> holds the objects the handler passed to
  \<open>ws.send(JSON.stringify(...))\<close>, oldest first; \<open>delivered\<close> holds those of them that go
  out to the client, which are the ones passed while the socket was open; \<open>closed\<close> says
  whether the handler has called \<open>ws.close()\<close>. After \<open>close()\<close> the socket is closing, and
  \<open>send\<close> on a socket that is not open drops the message without throwing.
\<close>

record socket =
  sent :: "json list"
  delivered :: "json list"
  closed :: bool

definition ws_send :: "json \<Rightarrow> socket \<Rightarrow> socket" where
  "ws_send m w =
     w\<lparr>sent := sent w @ [m],
       delivered := (if closed w then delivered w else delivered w @ [m])\<rparr>"

definition ws_close :: "socket \<Rightarrow> socket" where
  "ws_close w = w\<lparr>closed := True\<rparr>"

section \<open>Requests to the provider\<close>

text \<open>A \<open>Buffer\<close> is its bytes.\<close>

datatype buffer = Bytes "8 word list"

text \<open>
  \<open>Buffer.from(s, 'base64')\<close> as Node decodes it. The letters, the digits, \<open>+\<close> and \<open>/\<close>
  (and \<open>-\<close> and \<open>_\<close> of the URL alphabet) stand for the values 0 to 63; any other
  character is skipped, and the first \<open>=\<close> ends the decoding, whatever follows it. The
  values are packed six bits each, and every complete byte is delivered: four values give
  three bytes, three left over give two, two give one, a single one gives none.
\<close>

definition b64_value :: "char \<Rightarrow> nat option" where
  "b64_value c =
     (let n = (of_char c :: nat) in
      if 65 \<le> n \<and> n \<le> 90 then Some (n - 65)
      else if 97 \<le> n \<and> n \<le> 122 then Some (n - 71)
      else if 48 \<le> n \<and> n \<le> 57 then Some (n + 4)
      else if n = 43 \<or> n = 45 then Some 62
      else if n = 47 \<or> n = 95 then Some 63
      else None)"

fun sextets :: "string \<Rightarrow> nat list" where
  "sextets [] = []"
| "sextets (c # cs) =
     (if c = CHR ''='' then []
      else case b64_value c of
             Some v \<Rightarrow> v # sextets cs
           | None \<Rightarrow> sextets cs)"

fun bytes_of :: "nat list \<Rightarrow> 8 word list" where
  "bytes_of (a # b # c # d # vs) =
     of_nat (a * 4 + b div 16) # of_nat (b mod 16 * 16 + c div 4) # of_nat (c mod 4 * 64 + d) #
       bytes_of vs"
| "bytes_of [a, b, c] = [of_nat (a * 4 + b div 16), of_nat (b mod 16 * 16 + c div 4)]"
| "bytes_of [a, b] = [of_nat (a * 4 + b div 16)]"
| "bytes_of vs = []"

definition Buffer_from_base64 :: "string \<Rightarrow> buffer" where
  "Buffer_from_base64 s = Bytes (bytes_of (sextets s))"

text \<open>\<open>new File([buffer], name, {type: mime})\<close>\<close>

datatype js_file = File buffer string string

text \<open>
  \<open>openai.audio.transcriptions.create({file, model})\<close> and
  \<open>openai.responses.create({model, input, temperature: 0.2})\<close>.
\<close>

datatype request =
    Transcriptions_create js_file string
  | Responses_create string string

definition prompt_head :: string where
  \<open>prompt_head =
     [CHR 0x0A] @
     ''You are a clinical note helper. Convert the given doctor-patient transcript into concise SOAP sections and redFlags.'' @
     [CHR 0x0A] @ ''Return ONLY JSON:'' @
     [CHR 0x0A] @ ''{"subjective":[],"objective":[],"assessment":[],"plan":[],"redFlags":[]}'' @
     [CHR 0x0A, CHR 0x0A] @ ''Transcript:'' @ [CHR 0x0A]\<close>

text \<open>The template literal of the \<open>end\<close> handler closes after a newline and eight blanks.\<close>

definition stream_prompt :: "string \<Rightarrow> string" where
  "stream_prompt fullText = prompt_head @ fullText @ [CHR 0x0A] @ ''        ''"


section \<open>The message handler of /stream\<close>

text \<open>
  The handler is an \<open>async\<close> function: it runs to its first \<open>await\<close>, and the rest runs
  when the awaited call settles. A suspended invocation is the request it waits for and
  the locals its continuation still reads (\<open>fullText\<close> of the \<open>end\<close> branch).
\<close>

datatype suspended =
    Await_transcription request
  | Await_completion request string

text \<open>
  \<open>catch (err) { console.error(...); ws.send(JSON.stringify({type:'error',
  message: err.message})) }\<close>
\<close>

definition catch :: "js_error \<Rightarrow> socket \<Rightarrow> socket" where
  "catch err w = ws_send (JObj [(''type'', JStr ''error''), (''message'', JStr (message err))]) w"

text \<open>
  The body of the \<open>try\<close> up to the first \<open>await\<close>. Every throw in it comes before any
  assignment, so a thrown error leaves the store as it was: when \<open>chunks.join('')\<close> throws,
  the chunk buffer is not reset and no call is started. The three \<open>if\<close>s of the source
  test the same value against three different strings, so at most one body runs.
\<close>

definition message_body ::
  "parser \<Rightarrow> string \<Rightarrow> string \<Rightarrow> store \<Rightarrow> js_error + (store \<times> suspended option)" where
  "message_body JSON_parse sid msg st =
     (case JSON_parse msg of
        Inl err \<Rightarrow> Inl err
      | Inr payload \<Rightarrow>
          (case get_prop payload ''type'' of
             Inl err \<Rightarrow> Inl err
           | Inr ty \<Rightarrow>
               if ty = Some (JStr ''audioChunk'') then
                 (case Map_get st sid of
                    None \<Rightarrow> Inl (TypeError (cannot_read ''undefined'' ''chunks''))
                  | Some s \<Rightarrow>
                      (case get_prop payload ''data'' of
                         Inl err \<Rightarrow> Inl err
                       | Inr d \<Rightarrow> Inr (Map_set st sid (s\<lparr>chunks := chunks s @ [d]\<rparr>), None)))
               else if ty = Some (JStr ''chunkEnd'') then
                 (case Map_get st sid of
                    None \<Rightarrow> Inl (TypeError (cannot_read ''undefined'' ''chunks''))
                  | Some s \<Rightarrow>
                      (case array_join [] (chunks s) of
                         Inl err \<Rightarrow> Inl err
                       | Inr combinedBase64 \<Rightarrow>
                           let st' = Map_set st sid (s\<lparr>chunks := []\<rparr>);
                               audioBuffer = Buffer_from_base64 combinedBase64
                           in Inr (st', Some (Await_transcription
                                 (Transcriptions_create
                                    (File audioBuffer ''chunk.wav'' ''audio/wav'') ''whisper-1'')))))
               else if ty = Some (JStr ''end'') then
                 (case Map_get st sid of
                    None \<Rightarrow> Inl (TypeError (cannot_read ''undefined'' ''transcript''))
                  | Some s \<Rightarrow>
                      let fullText = trim (transcript s)
                      in Inr (st, Some (Await_completion
                            (Responses_create ''gpt-4o-mini'' (stream_prompt fullText)) fullText)))
               else Inr (st, None)))"

definition on_message ::
  "parser \<Rightarrow> string \<Rightarrow> string \<Rightarrow> store \<times> socket \<Rightarrow> (store \<times> socket) \<times> suspended option" where
  "on_message JSON_parse sid msg = (\<lambda>(st, w).
     case message_body JSON_parse sid msg st of
       Inl err \<Rightarrow> ((st, catch err w), None)
     | Inr (st', susp) \<Rightarrow> ((st', w), susp))"

text \<open>
  The summary of both routes: the parsed text of the model, or the fallback object with
  the route's own error text.
\<close>

definition parse_summary :: "parser \<Rightarrow> string \<Rightarrow> string \<Rightarrow> json" where
  "parse_summary JSON_parse err raw =
     (case JSON_parse raw of
        Inr v \<Rightarrow> v
      | Inl e \<Rightarrow> JObj [(''error'', JStr err), (''raw'', JStr raw)])"

text \<open>
  The continuation after the \<open>await\<close>, run when the call settles: \<open>Inl\<close> is the rejection
  of the call, \<open>Inr\<close> the text of its response (\<open>transcription.text\<close>, or
  \<open>completion.output[0].content[0].text\<close>). A response that carries no such text is not
  among the outcomes.
\<close>

fun resume ::
  "parser \<Rightarrow> string \<Rightarrow> suspended \<Rightarrow> js_error + string \<Rightarrow> store \<times> socket \<Rightarrow> store \<times> socket" where
  "resume JSON_parse sid k (Inl err) (st, w) = (st, catch err w)"
| "resume JSON_parse sid (Await_transcription rq) (Inr text) (st, w) =
     (case Map_get st sid of
        None \<Rightarrow> (st, catch (TypeError (cannot_read ''undefined'' ''transcript'')) w)
      | Some s \<Rightarrow>
          (Map_set st sid (s\<lparr>transcript := transcript s @ '' '' @ text\<rparr>),
           ws_send (JObj [(''type'', JStr ''partialTranscript''), (''text'', JStr text)]) w))"
| "resume JSON_parse sid (Await_completion rq fullText) (Inr raw) (st, w) =
     (let summary = parse_summary JSON_parse ''Invalid JSON from model'' raw
      in (Map_delete st sid,
          ws_close (ws_send (JObj [(''type'', JStr ''final''), (''transcript'', JStr fullText),
                                   (''summary'', summary)]) w)))"

section \<open>The server: connections, the event loop\<close>

text \<open>
  \<open>app.ws('/stream', (ws, req) => ...)\<close> closes over \<open>ws\<close> and \<open>sessionId\<close>, one pair per
  connection. The store is the one module-level \<open>Map\<close>. The suspended invocations wait
  in \<open>pending\<close>, each with the index of its connection.
\<close>

record connection =
  sessionId :: string
  ws :: socket

record server =
  sessions :: store
  connections :: "connection list"
  pending :: "(nat \<times> suspended) list"

definition init :: server where
  "init = \<lparr>sessions = Map.empty, connections = [], pending = []\<rparr>"

text \<open>
  What the event loop runs, one at a time and each to its next \<open>await\<close>: a new
  connection (with the identifier \<open>uuid()\<close> returned), a text frame on a connection, and
  the settling of a pending provider call. The provider decides the order of settling.
\<close>

datatype event =
    Connection string
  | Message nat string
  | Settled nat "js_error + string"

fun step :: "parser \<Rightarrow> event \<Rightarrow> server \<Rightarrow> server" where
  "step JSON_parse (Connection sid) S =
     S\<lparr>sessions := Map_set (sessions S) sid \<lparr>chunks = [], transcript = []\<rparr>,
       connections := connections S @
         [\<lparr>sessionId = sid,
           ws = ws_send (JObj [(''type'', JStr ''session''), (''sessionId'', JStr sid)])
                  \<lparr>sent = [], delivered = [], closed = False\<rparr>\<rparr>]\<rparr>"
| "step JSON_parse (Message c msg) S =
     (if c < length (connections S) then
        let conn = connections S ! c;
            ((st, w), susp) = on_message JSON_parse (sessionId conn) msg (sessions S, ws conn)
        in S\<lparr>sessions := st,
             connections := (connections S)[c := conn\<lparr>ws := w\<rparr>],
             pending := pending S @ (case susp of None \<Rightarrow> [] | Some k \<Rightarrow> [(c, k)])\<rparr>
      else S)"
| "step JSON_parse (Settled i r) S =
     (if i < length (pending S) \<and> fst (pending S ! i) < length (connections S) then
        let (c, k) = pending S ! i;
            conn = connections S ! c;
            (st, w) = resume JSON_parse (sessionId conn) k r (sessions S, ws conn)
        in S\<lparr>sessions := st,
             connections := (connections S)[c := conn\<lparr>ws := w\<rparr>],
             pending := take i (pending S) @ drop (Suc i) (pending S)\<rparr>
      else S)"

definition run :: "parser \<Rightarrow> event list \<Rightarrow> server \<Rightarrow> server" where
  "run JSON_parse evs S = fold (step JSON_parse) evs S"

section \<open>The batch route /one-shot\<close>

text \<open>\<open>req.file\<close> as multer leaves it: absent, or the upload with its \<open>buffer\<close>.\<close>

record upload =
  buffer :: "8 word list"








section \<open>Reading a message, and sample texts\<close>

text \<open>
  The \<open>type\<close> the handler compares against its three strings, when the frame parses and
  the property is a string; and the \<open>data\<close> property that \<open>push\<close> stores.
\<close>

definition msg_type :: "parser \<Rightarrow> string \<Rightarrow> string option" where
  "msg_type JSON_parse msg =
     (case JSON_parse msg of
        Inl e \<Rightarrow> None
      | Inr payload \<Rightarrow>
          (case get_prop payload ''type'' of
             Inr (Some (JStr t)) \<Rightarrow> Some t
           | _ \<Rightarrow> None))"

definition msg_data :: "parser \<Rightarrow> string \<Rightarrow> json option" where
  "msg_data JSON_parse msg =
     (case JSON_parse msg of
        Inl e \<Rightarrow> None
      | Inr payload \<Rightarrow> (case get_prop payload ''data'' of Inl e \<Rightarrow> None | Inr d \<Rightarrow> d))"








text \<open>An audio frame whose \<open>data\<close> is the string \<open>d\<close>, as the protocol has it.\<close>

definition is_audioChunk :: "parser \<Rightarrow> string \<Rightarrow> string \<Rightarrow> bool" where
  "is_audioChunk JSON_parse msg d =
     (msg_type JSON_parse msg = Some ''audioChunk'' \<and> msg_data JSON_parse msg = Some (JStr d))"

text \<open>The request of a flush whose joined base64 text is \<open>b\<close>.\<close>

definition transcription_of :: "string \<Rightarrow> suspended" where
  "transcription_of b =
     Await_transcription
       (Transcriptions_create (File (Buffer_from_base64 b) ''chunk.wav'' ''audio/wav'') ''whisper-1'')"

fun is_transcription :: "suspended \<Rightarrow> bool" where
  "is_transcription (Await_transcription rq) = True"
| "is_transcription (Await_completion rq fullText) = False"

text \<open>
  The payloads whose decoding can be followed by more text: base64 characters only, in
  whole groups of four, so without padding.
\<close>

definition whole_groups :: "string \<Rightarrow> bool" where
  "whole_groups d = (length d mod 4 = 0 \<and> list_all (\<lambda>c. c \<noteq> CHR ''='' \<and> b64_value c \<noteq> None) d)"

text \<open>The bytes of a buffer.\<close>

fun bytes :: "buffer \<Rightarrow> 8 word list" where
  "bytes (Bytes bs) = bs"

text \<open>
  No \<open>end\<close> frame arrives for the session \<open>sid\<close> in the events: \<open>ids\<close> are the session
  identifiers of the connections open so far, in the order of the connections.
\<close>

fun abandoned :: "parser \<Rightarrow> string \<Rightarrow> string list \<Rightarrow> event list \<Rightarrow> bool" where
  "abandoned JSON_parse sid ids [] = True"
| "abandoned JSON_parse sid ids (Connection s # evs) = abandoned JSON_parse sid (ids @ [s]) evs"
| "abandoned JSON_parse sid ids (Message c msg # evs) =
     (\<not> (c < length ids \<and> ids ! c = sid \<and> msg_type JSON_parse msg = Some ''end'')
      \<and> abandoned JSON_parse sid ids evs)"
| "abandoned JSON_parse sid ids (Settled i r # evs) = abandoned JSON_parse sid ids evs"

text \<open>The session identifiers of the connections, in the order of the connections.\<close>

definition session_ids :: "server \<Rightarrow> string list" where
  "session_ids S = map sessionId (connections S)"

text \<open>No finalize of the session \<open>sid\<close> is among the pending calls.\<close>

definition no_finalize_pending :: "server \<Rightarrow> string \<Rightarrow> bool" where
  "no_finalize_pending S sid =
     list_all (\<lambda>p. is_transcription (snd p) \<or>
                 (fst p < length (connections S) \<and> sessionId (connections S ! fst p) \<noteq> sid))
       (pending S)"

text \<open>An event other than the arrival of an \<open>end\<close> frame.\<close>

fun not_end :: "parser \<Rightarrow> event \<Rightarrow> bool" where
  "not_end JSON_parse (Message c msg) = (msg_type JSON_parse msg \<noteq> Some ''end'')"
| "not_end JSON_parse ev = True"

text \<open>The identifiers of the connections opened in a run.\<close>

fun opened :: "event list \<Rightarrow> string set" where
  "opened [] = {}"
| "opened (Connection sid # evs) = insert sid (opened evs)"
| "opened (ev # evs) = opened evs"

text \<open>Several messages passed to \<open>ws.send\<close>, one after the other.\<close>

definition sends :: "json list \<Rightarrow> socket \<Rightarrow> socket" where
  "sends out w = fold ws_send out w"

text \<open>
  The state after connection \<open>c\<close> has stored \<open>s\<close> as its session and sent \<open>out\<close>: the other
  sessions, the other connections and the pending calls are as they were.
\<close>

definition with_session :: "server \<Rightarrow> nat \<Rightarrow> session \<Rightarrow> json list \<Rightarrow> server" where
  "with_session S c s out =
     S\<lparr>sessions := Map_set (sessions S) (sessionId (connections S ! c)) s,
       connections := (connections S)[c := (connections S ! c)
          \<lparr>ws := sends out (ws (connections S ! c))\<rparr>]\<rparr>"

text \<open>The server's messages.\<close>

definition partialTranscript :: "string \<Rightarrow> json" where
  "partialTranscript t = JObj [(''type'', JStr ''partialTranscript''), (''text'', JStr t)]"

definition error_message :: "string \<Rightarrow> json" where
  "error_message m = JObj [(''type'', JStr ''error''), (''message'', JStr m)]"

definition final :: "string \<Rightarrow> json \<Rightarrow> json" where
  "final t summary =
     JObj [(''type'', JStr ''final''), (''transcript'', JStr t), (''summary'', summary)]"

definition session_message :: "string \<Rightarrow> json" where
  "session_message sid = JObj [(''type'', JStr ''session''), (''sessionId'', JStr sid)]"

subsection \<open>Concrete frames\<close>

definition frame_A :: string where
  \<open>frame_A = ''{"type":"audioChunk","data":"QQ=="}''\<close>

definition frame_B :: string where
  \<open>frame_B = ''{"type":"audioChunk","data":"Qg=="}''\<close>

definition frame_chunkEnd :: string where
  \<open>frame_chunkEnd = ''{"type":"chunkEnd"}''\<close>

definition frame_end :: string where
  \<open>frame_end = ''{"type":"end"}''\<close>

definition frame_ping :: string where
  \<open>frame_ping = ''{"type":"ping"}''\<close>

definition frame_null :: string where
  "frame_null = ''null''"

text \<open>A frame whose \<open>data\<close> is an object with a property \<open>toString\<close>.\<close>

definition frame_object :: string where
  \<open>frame_object = ''{"type":"audioChunk","data":{"toString":1}}''\<close>

definition summary_text :: string where
  \<open>summary_text =
     ''{"subjective":["pt reports pain"],"objective":[],"assessment":[],"plan":[],"redFlags":[]}''\<close>

definition summary_value :: json where
  "summary_value =
     JObj [(''subjective'', JArr [JStr ''pt reports pain'']), (''objective'', JArr []),
           (''assessment'', JArr []), (''plan'', JArr []), (''redFlags'', JArr [])]"

text \<open>
  For runs on concrete frames: \<open>JSON.parse\<close> on the texts listed here, with the values it
  gives for them. Any other text is taken as not JSON.
\<close>

definition sample_texts :: "(string \<times> json) list" where
  "sample_texts =
     [(frame_A, JObj [(''type'', JStr ''audioChunk''), (''data'', JStr ''QQ=='')]),
      (frame_B, JObj [(''type'', JStr ''audioChunk''), (''data'', JStr ''Qg=='')]),
      (frame_chunkEnd, JObj [(''type'', JStr ''chunkEnd'')]),
      (frame_end, JObj [(''type'', JStr ''end'')]),
      (frame_ping, JObj [(''type'', JStr ''ping'')]),
      (frame_null, JNull),
      (frame_object,
         JObj [(''type'', JStr ''audioChunk''), (''data'', JObj [(''toString'', JNum ''1'')])]),
      (summary_text, summary_value)]"

definition sample_parse :: parser where
  "sample_parse text =
     (case map_of sample_texts text of
        Some v \<Rightarrow> Inr v
      | None \<Rightarrow> Inl (SyntaxError (''Unexpected token in JSON: '' @ text)))"



section \<open>Strings\<close>

lemma join_empty_sep: "join [] xs = concat xs"
  by (induction "[] :: string" xs rule: join.induct) simp_all

lemma sequence_Inr: "sequence (map Inr xs) = Inr xs"
  by (induction xs) simp_all

lemma array_join_strings: "array_join [] (map (\<lambda>d. Some (JStr d)) ds) = Inr (concat ds)"
proof -
  have "map join_element (map (\<lambda>d. Some (JStr d)) ds) = map Inr ds"
    by simp
  then show ?thesis
    by (simp only: array_join_def sequence_Inr) (simp add: join_empty_sep)
qed





lemma trim_Nil: "trim [] = []"
  by (simp add: trim_def)


section \<open>The handler, one frame type at a time\<close>

lemma msg_typeD:
  assumes "msg_type P m = Some t"
  obtains payload where "P m = Inr payload" and "get_prop payload ''type'' = Inr (Some (JStr t))"
proof (cases "P m")
  case (Inl e)
  with assms show ?thesis by (simp add: msg_type_def)
next
  case (Inr payload)
  with assms have "get_prop payload ''type'' = Inr (Some (JStr t))"
    by (simp add: msg_type_def split: sum.splits option.splits json.splits)
  with Inr show ?thesis by (rule that)
qed

lemma on_message_audioChunk:
  assumes "msg_type P m = Some ''audioChunk''" and "Map_get st sid = Some s"
  shows "on_message P sid m (st, w) =
           ((Map_set st sid (s\<lparr>chunks := chunks s @ [msg_data P m]\<rparr>), w), None)"
proof -
  from assms(1) obtain payload where p: "P m = Inr payload"
    and t: "get_prop payload ''type'' = Inr (Some (JStr ''audioChunk''))"
    by (rule msg_typeD)
  from t obtain d where d: "get_prop payload ''data'' = Inr d"
    by (cases payload) simp_all
  show ?thesis
    by (simp add: on_message_def message_body_def msg_data_def p t d assms(2))
qed

lemma on_message_chunkEnd:
  assumes "msg_type P m = Some ''chunkEnd''" and "Map_get st sid = Some s"
    and "array_join [] (chunks s) = Inr b"
  shows "on_message P sid m (st, w) =
           ((Map_set st sid (s\<lparr>chunks := []\<rparr>), w),
            Some (transcription_of b))"
proof -
  from assms(1) obtain payload where p: "P m = Inr payload"
    and t: "get_prop payload ''type'' = Inr (Some (JStr ''chunkEnd''))"
    by (rule msg_typeD)
  show ?thesis
    by (simp add: on_message_def message_body_def transcription_of_def p t assms(2,3))
qed

lemma on_message_end:
  assumes "msg_type P m = Some ''end''" and "Map_get st sid = Some s"
  shows "on_message P sid m (st, w) =
           ((st, w), Some (Await_completion
               (Responses_create ''gpt-4o-mini'' (stream_prompt (trim (transcript s))))
               (trim (transcript s))))"
proof -
  from assms(1) obtain payload where p: "P m = Inr payload"
    and t: "get_prop payload ''type'' = Inr (Some (JStr ''end''))"
    by (rule msg_typeD)
  show ?thesis
    by (simp add: on_message_def message_body_def p t assms(2) Let_def)
qed


section \<open>Steps of the event loop\<close>

lemma step_Message_eq:
  assumes "c < length (connections S)"
    and "on_message P (sessionId (connections S ! c)) m (sessions S, ws (connections S ! c)) =
           ((st, w), susp)"
  shows "step P (Message c m) S =
           S\<lparr>sessions := st,
             connections := (connections S)[c := (connections S ! c)\<lparr>ws := w\<rparr>],
             pending := pending S @ (case susp of None \<Rightarrow> [] | Some k \<Rightarrow> [(c, k)])\<rparr>"
  using assms by (simp add: Let_def)

lemma step_Settled_eq:
  assumes "i < length (pending S)" and "pending S ! i = (c, k)" and "c < length (connections S)"
    and "resume P (sessionId (connections S ! c)) k r (sessions S, ws (connections S ! c)) = (st, w)"
  shows "step P (Settled i r) S =
           S\<lparr>sessions := st,
             connections := (connections S)[c := (connections S ! c)\<lparr>ws := w\<rparr>],
             pending := take i (pending S) @ drop (Suc i) (pending S)\<rparr>"
  using assms by (simp add: Let_def)

lemma sends_simps:
  "sent (sends out w) = sent w @ out"
  "closed (sends out w) = closed w"
  "delivered (sends out w) = (if closed w then delivered w else delivered w @ out)"
  "sends [] w = w"
  "sends (out @ out') w = sends out' (sends out w)"
  "sends [m] w = ws_send m w"
proof -
  have "sent (fold ws_send out w) = sent w @ out \<and> closed (fold ws_send out w) = closed w
        \<and> delivered (fold ws_send out w) = (if closed w then delivered w else delivered w @ out)"
    by (induction out arbitrary: w) (simp_all add: ws_send_def)
  then show "sent (sends out w) = sent w @ out" "closed (sends out w) = closed w"
    "delivered (sends out w) = (if closed w then delivered w else delivered w @ out)"
    by (simp_all add: sends_def)
qed (simp_all add: sends_def)

lemma with_session_simps:
  "pending (with_session S c s out) = pending S"
  "length (connections (with_session S c s out)) = length (connections S)"
  "c < length (connections S) \<Longrightarrow>
     sessionId (connections (with_session S c s out) ! c) = sessionId (connections S ! c)"
  "sid = sessionId (connections S ! c) \<Longrightarrow> sessions (with_session S c s out) sid = Some s"
  "c < length (connections S) \<Longrightarrow>
     ws (connections (with_session S c s out) ! c) = sends out (ws (connections S ! c))"
  by (simp_all add: with_session_def Map_set_def)

lemma with_session_twice:
  assumes "c < length (connections S)"
  shows "with_session (with_session S c s1 out1) c s2 out2 = with_session S c s2 (out1 @ out2)"
  using assms by (simp add: with_session_def Map_set_def sends_simps)

lemma with_session_same:
  assumes "c < length (connections S)" and "sessions S (sessionId (connections S ! c)) = Some s"
  shows "with_session S c s [] = S"
  using assms by (simp add: with_session_def Map_set_def fun_upd_idem sends_simps)


lemma step_audioChunk:
  assumes "c < length (connections S)" and "sessions S (sessionId (connections S ! c)) = Some s"
    and "msg_type P m = Some ''audioChunk''"
  shows "step P (Message c m) S = with_session S c (s\<lparr>chunks := chunks s @ [msg_data P m]\<rparr>) []"
proof -
  have "Map_get (sessions S) (sessionId (connections S ! c)) = Some s"
    using assms(2) by (simp add: Map_get_def)
  from on_message_audioChunk [OF assms(3) this]
  show ?thesis
    using assms(1) by (simp add: step_Message_eq with_session_def sends_simps)
qed

lemma step_chunkEnd:
  assumes "c < length (connections S)" and "sessions S (sessionId (connections S ! c)) = Some s"
    and "msg_type P m = Some ''chunkEnd''" and "array_join [] (chunks s) = Inr b"
  shows "step P (Message c m) S =
           (with_session S c (s\<lparr>chunks := []\<rparr>) [])
             \<lparr>pending := pending S @ [(c, transcription_of b)]\<rparr>"
proof -
  have "Map_get (sessions S) (sessionId (connections S ! c)) = Some s"
    using assms(2) by (simp add: Map_get_def)
  from on_message_chunkEnd [OF assms(3) this assms(4)]
  show ?thesis
    using assms(1) by (simp add: step_Message_eq with_session_def sends_simps)
qed

lemma step_end:
  assumes "c < length (connections S)" and "sessions S (sessionId (connections S ! c)) = Some s"
    and "msg_type P m = Some ''end''"
  shows "step P (Message c m) S =
           S\<lparr>pending := pending S @ [(c, Await_completion
               (Responses_create ''gpt-4o-mini'' (stream_prompt (trim (transcript s))))
               (trim (transcript s)))]\<rparr>"
proof -
  have "Map_get (sessions S) (sessionId (connections S ! c)) = Some s"
    using assms(2) by (simp add: Map_get_def)
  from on_message_end [OF assms(3) this]
  show ?thesis
    using assms(1) by (simp add: step_Message_eq)
qed


lemma step_transcribed:
  assumes "i < length (pending S)" and "pending S ! i = (c, Await_transcription rq)"
    and "c < length (connections S)" and "sessions S (sessionId (connections S ! c)) = Some s"
  shows "step P (Settled i (Inr t)) S =
           (with_session S c (s\<lparr>transcript := transcript s @ '' '' @ t\<rparr>) [partialTranscript t])
             \<lparr>pending := take i (pending S) @ drop (Suc i) (pending S)\<rparr>"
  using assms
  by (simp add: Let_def Map_get_def with_session_def sends_simps partialTranscript_def)

lemma step_rejected:
  assumes "i < length (pending S)" and "pending S ! i = (c, k)" and "c < length (connections S)"
  shows "step P (Settled i (Inl err)) S =
           S\<lparr>connections := (connections S)[c := (connections S ! c)
                \<lparr>ws := catch err (ws (connections S ! c))\<rparr>],
             pending := take i (pending S) @ drop (Suc i) (pending S)\<rparr>"
  using assms by (simp add: Let_def)

lemma step_completed:
  assumes "i < length (pending S)" and "pending S ! i = (c, Await_completion rq fullText)"
    and "c < length (connections S)"
  shows "step P (Settled i (Inr raw)) S =
           S\<lparr>sessions := Map_delete (sessions S) (sessionId (connections S ! c)),
             connections := (connections S)[c := (connections S ! c)
                \<lparr>ws := ws_close (ws_send
                    (final fullText (parse_summary P ''Invalid JSON from model'' raw))
                    (ws (connections S ! c)))\<rparr>],
             pending := take i (pending S) @ drop (Suc i) (pending S)\<rparr>"
  using assms by (simp add: Let_def final_def)

declare step.simps [simp del]

lemma run_Nil: "run P [] S = S"
  by (simp add: run_def)

lemma run_Cons: "run P (e # evs) S = run P evs (step P e S)"
  by (simp add: run_def)

lemma run_append: "run P (evs @ evs') S = run P evs' (run P evs S)"
  by (simp add: run_def)

section \<open>One session's frames and calls, settled oldest first\<close>







lemma finalize_run:
  assumes c: "c < length (connections S)"
    and s: "sessions S (sessionId (connections S ! c)) = Some s"
    and m: "msg_type P m = Some ''end''"
  shows "run P [Message c m, Settled (length (pending S)) (Inr raw)] S =
           S\<lparr>sessions := Map_delete (sessions S) (sessionId (connections S ! c)),
             connections := (connections S)[c := (connections S ! c)
                \<lparr>ws := ws_close (ws_send
                    (final (trim (transcript s)) (parse_summary P ''Invalid JSON from model'' raw))
                    (ws (connections S ! c)))\<rparr>]\<rparr>"
proof -
  let ?k = "Await_completion
               (Responses_create ''gpt-4o-mini'' (stream_prompt (trim (transcript s))))
               (trim (transcript s))"
  let ?S1 = "S\<lparr>pending := pending S @ [(c, ?k)]\<rparr>"
  have 1: "step P (Message c m) S = ?S1"
    using c s m by (rule step_end)
  have 2: "step P (Settled (length (pending S)) (Inr raw)) ?S1 =
      ?S1\<lparr>sessions := Map_delete (sessions ?S1) (sessionId (connections ?S1 ! c)),
          connections := (connections ?S1)[c := (connections ?S1 ! c)
            \<lparr>ws := ws_close (ws_send
                (final (trim (transcript s)) (parse_summary P ''Invalid JSON from model'' raw))
                (ws (connections ?S1 ! c)))\<rparr>],
          pending := take (length (pending S)) (pending ?S1) @ drop (Suc (length (pending S))) (pending ?S1)\<rparr>"
    by (rule step_completed [where rq = "Responses_create ''gpt-4o-mini'' (stream_prompt (trim (transcript s)))"])
       (simp_all add: c)
  show ?thesis
    unfolding run_Cons run_Nil 1 2 by simp
qed

section \<open>The sample frames\<close>

lemma sample_parse_frames:
  "sample_parse frame_A = Inr (JObj [(''type'', JStr ''audioChunk''), (''data'', JStr ''QQ=='')])"
  "sample_parse frame_B = Inr (JObj [(''type'', JStr ''audioChunk''), (''data'', JStr ''Qg=='')])"
  "sample_parse frame_chunkEnd = Inr (JObj [(''type'', JStr ''chunkEnd'')])"
  "sample_parse frame_end = Inr (JObj [(''type'', JStr ''end'')])"
  "sample_parse frame_ping = Inr (JObj [(''type'', JStr ''ping'')])"
  "sample_parse frame_null = Inr JNull"
  "sample_parse frame_object =
     Inr (JObj [(''type'', JStr ''audioChunk''), (''data'', JObj [(''toString'', JNum ''1'')])])"
  "sample_parse summary_text = Inr summary_value"
  "sample_parse ''not json'' = Inl (SyntaxError ''Unexpected token in JSON: not json'')"
  by (simp_all add: sample_parse_def sample_texts_def frame_A_def frame_B_def frame_chunkEnd_def
        frame_end_def frame_ping_def frame_null_def frame_object_def summary_text_def)

lemma sample_types:
  "msg_type sample_parse frame_A = Some ''audioChunk''"
  "msg_type sample_parse frame_B = Some ''audioChunk''"
  "msg_type sample_parse frame_object = Some ''audioChunk''"
  "msg_type sample_parse frame_chunkEnd = Some ''chunkEnd''"
  "msg_type sample_parse frame_end = Some ''end''"
  "msg_type sample_parse frame_ping = Some ''ping''"
  "msg_data sample_parse frame_A = Some (JStr ''QQ=='')"
  "msg_data sample_parse frame_B = Some (JStr ''Qg=='')"
  "msg_data sample_parse frame_object = Some (JObj [(''toString'', JNum ''1'')])"
  by (simp_all add: msg_type_def msg_data_def sample_parse_frames)

lemma sample_buffers:
  "Buffer_from_base64 [] = Bytes []"
  "Buffer_from_base64 ''QQ=='' = Bytes [0x41]"
  "Buffer_from_base64 ''Qg=='' = Bytes [0x42]"
  "Buffer_from_base64 ''QQ==Qg=='' = Bytes [0x41]"
  "Buffer_from_base64 ''QUI='' = Bytes [0x41, 0x42]"
  by (simp_all add: Buffer_from_base64_def b64_value_def)

lemmas run_defs =
  run_def step.simps init_def on_message_def message_body_def Map_get_def Map_set_def
  Map_delete_def array_join_def ws_send_def ws_close_def catch_def parse_summary_def Let_def
  sample_parse_frames session_message_def partialTranscript_def error_message_def final_def
  transcription_of_def cannot_read_def

section \<open>Claims\<close>




lemma chunks_run:
  assumes "c < length (connections S)"
    and "sessions S (sessionId (connections S ! c)) = Some s"
    and "list_all (\<lambda>m. msg_type P m = Some ''audioChunk'') ms"
  shows "run P (map (Message c) ms) S =
           with_session S c (s\<lparr>chunks := chunks s @ map (msg_data P) ms\<rparr>) []"
  using assms
proof (induction ms arbitrary: S s)
  case Nil
  then show ?case by (simp add: run_Nil with_session_same)
next
  case (Cons m ms)
  let ?s1 = "s\<lparr>chunks := chunks s @ [msg_data P m]\<rparr>"
  let ?S1 = "with_session S c ?s1 []"
  have st: "step P (Message c m) S = ?S1"
    using step_audioChunk [of c S s P m] Cons.prems by simp
  have "run P (map (Message c) ms) ?S1 =
          with_session ?S1 c (?s1\<lparr>chunks := chunks ?s1 @ map (msg_data P) ms\<rparr>) []"
    using Cons.prems by (intro Cons.IH) (simp_all add: with_session_simps)
  then show ?case
    using Cons.prems(1) by (simp add: run_Cons st with_session_twice)
qed


text \<open>
  A buffered payload that \<open>join\<close> cannot convert stops every flush of the session: the
  \<open>chunkEnd\<close> handler throws before it resets the buffer, starts no call and answers with
  an \<open>error\<close> message.
\<close>

lemma object_payload_stops_flush:
  "pending (run sample_parse
      [Connection ''s1'', Message 0 frame_object, Message 0 frame_chunkEnd] init) = []
   \<and> map_option chunks (sessions (run sample_parse
      [Connection ''s1'', Message 0 frame_object, Message 0 frame_chunkEnd] init) ''s1'') =
     Some [Some (JObj [(''toString'', JNum ''1'')])]
   \<and> delivered (ws (connections (run sample_parse
      [Connection ''s1'', Message 0 frame_object, Message 0 frame_chunkEnd] init) ! 0)) =
     [session_message ''s1'', error_message ''Cannot convert object to primitive value'']"
  by (simp add: run_defs)

lemma audioChunk_data:
  assumes "list_all2 (is_audioChunk P) ms ds"
  shows "list_all (\<lambda>m. msg_type P m = Some ''audioChunk'') ms"
    and "map (msg_data P) ms = map (\<lambda>d. Some (JStr d)) ds"
  using assms by (induction ms ds rule: list_all2_induct) (simp_all add: is_audioChunk_def)

lemma flush_request:
  assumes "c < length (connections S)"
    and "sessions S (sessionId (connections S ! c)) = Some s"
    and "chunks s = []"
    and "list_all2 (is_audioChunk P) ms ds"
    and "msg_type P m = Some ''chunkEnd''"
  shows "pending (run P (map (Message c) ms @ [Message c m]) S) =
           pending S @ [(c, transcription_of (concat ds))]
         \<and> map_option chunks
             (sessions (run P (map (Message c) ms @ [Message c m]) S)
                (sessionId (connections S ! c))) = Some []"
proof -
  let ?s1 = "s\<lparr>chunks := map (\<lambda>d. Some (JStr d)) ds\<rparr>"
  let ?S1 = "with_session S c ?s1 []"
  have r: "run P (map (Message c) ms) S = ?S1"
    using chunks_run [OF assms(1,2) audioChunk_data(1) [OF assms(4)]]
    by (simp add: assms(3) audioChunk_data(2) [OF assms(4)])
  have "array_join [] (chunks ?s1) = Inr (concat ds)"
    by (simp add: array_join_strings)
  with assms(1,5) have "step P (Message c m) ?S1 =
          (with_session ?S1 c (?s1\<lparr>chunks := []\<rparr>) [])
            \<lparr>pending := pending ?S1 @ [(c, transcription_of (concat ds))]\<rparr>"
    by (intro step_chunkEnd) (simp_all add: with_session_simps)
  then show ?thesis
    using assms(1)
    by (simp add: run_append run_Cons run_Nil r with_session_twice with_session_simps)
qed

lemma bytes_of_append:
  assumes "length vs mod 4 = 0"
  shows "bytes_of (vs @ us) = bytes_of vs @ bytes_of us"
  using assms
proof (induction vs rule: bytes_of.induct)
  case (1 a b c d vs)
  then have "length vs mod 4 = 0"
    by (simp add: mod_Suc split: if_splits)
  with 1 show ?case by simp
qed (simp_all add: mod_Suc)

lemma sextets_whole:
  assumes "list_all (\<lambda>c. c \<noteq> CHR ''='' \<and> b64_value c \<noteq> None) d"
  shows "sextets (d @ r) = sextets d @ sextets r \<and> length (sextets d) = length d"
  using assms by (induction d) auto

lemma decode_whole_groups:
  assumes "whole_groups d"
  shows "bytes (Buffer_from_base64 (d @ r)) =
           bytes (Buffer_from_base64 d) @ bytes (Buffer_from_base64 r)"
  using assms sextets_whole [of d r]
  by (simp add: whole_groups_def Buffer_from_base64_def bytes_of_append)

text \<open>
  C2. The unit submitted for transcription should be the exact concatenation of the
  chunk payloads. The handler joins the base64 texts of the payloads and decodes the
  joined text once, and the decoding ends at the first padding: after the audio frames
  \<open>QQ==\<close> (the byte 41) and \<open>Qg==\<close> (the byte 42) and one \<open>chunkEnd\<close>, the file of the
  transcription call holds the byte 41 alone, where the payloads decode to 41 and 42. The
  chunk buffer is empty after the flush.
\<close>

theorem padded_chunk_cuts_unit:
  "pending (run sample_parse
      [Connection ''s1'', Message 0 frame_A, Message 0 frame_B, Message 0 frame_chunkEnd] init) =
     [(0, Await_transcription (Transcriptions_create
         (File (Bytes [0x41]) ''chunk.wav'' ''audio/wav'') ''whisper-1''))]
   \<and> bytes (Buffer_from_base64 ''QQ=='') @ bytes (Buffer_from_base64 ''Qg=='') = [0x41, 0x42]
   \<and> map_option chunks (sessions (run sample_parse
      [Connection ''s1'', Message 0 frame_A, Message 0 frame_B, Message 0 frame_chunkEnd] init)
        ''s1'') = Some []"
  by (simp add: run_defs sample_buffers)












text \<open>
  C6 (as amended). When the transcription call of a flush settles, the session stays in
  the store and goes on accumulating. On success the text is appended to the transcript
  after a blank and sent as \<open>partialTranscript\<close>. On failure the error is reported in an
  \<open>error\<close> message and the store is left exactly as it was: nothing is appended to the
  transcript, so a failed flush leaves no segment and no marker.
\<close>

theorem transcription_settled:
  assumes "i < length (pending S)"
    and "pending S ! i = (c, Await_transcription rq)"
    and "c < length (connections S)"
    and "sessions S (sessionId (connections S ! c)) = Some s"
  shows "sessions (step P (Settled i (Inr t)) S) =
           Map_set (sessions S) (sessionId (connections S ! c))
             (s\<lparr>transcript := transcript s @ '' '' @ t\<rparr>)
         \<and> sent (ws (connections (step P (Settled i (Inr t)) S) ! c)) =
             sent (ws (connections S ! c)) @ [partialTranscript t]
         \<and> sessions (step P (Settled i (Inl err)) S) = sessions S
         \<and> sent (ws (connections (step P (Settled i (Inl err)) S) ! c)) =
             sent (ws (connections S ! c)) @ [error_message (message err)]"
  using assms(3)
  by (simp add: step_transcribed [OF assms] step_rejected [OF assms(1,2,3)]
        with_session_def catch_def ws_send_def error_message_def sends_simps)

theorem transcription_settled_witness:
  "0 < length (pending (run sample_parse [Connection ''s1'', Message 0 frame_A, Message 0 frame_chunkEnd] init))
   \<and> pending (run sample_parse [Connection ''s1'', Message 0 frame_A, Message 0 frame_chunkEnd] init) ! 0 =
       (0, Await_transcription (Transcriptions_create
          (File (Buffer_from_base64 ''QQ=='') ''chunk.wav'' ''audio/wav'') ''whisper-1''))
   \<and> 0 < length (connections (run sample_parse [Connection ''s1'', Message 0 frame_A, Message 0 frame_chunkEnd] init))
   \<and> sessions (run sample_parse [Connection ''s1'', Message 0 frame_A, Message 0 frame_chunkEnd] init)
        (sessionId (connections (run sample_parse [Connection ''s1'', Message 0 frame_A, Message 0 frame_chunkEnd] init) ! 0)) =
        Some \<lparr>chunks = [], transcript = []\<rparr>
   \<and> sessions (step sample_parse (Settled 0 (Inr ''hello''))
        (run sample_parse [Connection ''s1'', Message 0 frame_A, Message 0 frame_chunkEnd] init)) ''s1'' =
        Some \<lparr>chunks = [], transcript = '' hello''\<rparr>
   \<and> sessions (step sample_parse (Settled 0 (Inl (ProviderError ''timeout'')))
        (run sample_parse [Connection ''s1'', Message 0 frame_A, Message 0 frame_chunkEnd] init)) ''s1'' =
        Some \<lparr>chunks = [], transcript = []\<rparr>
   \<and> sent (ws (connections (step sample_parse (Settled 0 (Inl (ProviderError ''timeout'')))
        (run sample_parse [Connection ''s1'', Message 0 frame_A, Message 0 frame_chunkEnd] init)) ! 0)) =
        [session_message ''s1'', error_message ''timeout'']"
proof -
  let ?S = "run sample_parse [Connection ''s1'', Message 0 frame_A, Message 0 frame_chunkEnd] init"
  let ?rq = "Transcriptions_create (File (Buffer_from_base64 ''QQ=='') ''chunk.wav'' ''audio/wav'')
               ''whisper-1''"
  have h1: "0 < length (pending ?S)"
    by (simp add: run_defs sample_types)
  have h2: "pending ?S ! 0 = (0, Await_transcription ?rq)"
    by (simp add: run_defs sample_types)
  have h3: "0 < length (connections ?S)"
    by (simp add: run_defs)
  have h4: "sessions ?S (sessionId (connections ?S ! 0)) = Some \<lparr>chunks = [], transcript = []\<rparr>"
    by (simp add: run_defs)
  have s0: "sent (ws (connections ?S ! 0)) = [session_message ''s1'']"
    and i0: "sessionId (connections ?S ! 0) = ''s1''"
    by (simp_all add: run_defs)
  from transcription_settled [OF h1 h2 h3 h4, of sample_parse "''hello''" "ProviderError ''timeout''"]
  show ?thesis
    using h1 h2 h3 h4 by (simp only: s0 i0) (simp add: Map_set_def)
qed

text \<open>
  C6 as stated fails: after a flush whose transcription is rejected the transcript is
  still empty, and the \<open>final\<close> message of the session carries only the segment of the
  later flush.
\<close>

theorem failed_flush_leaves_no_marker:
  "sessions (run sample_parse
      [Connection ''s1'', Message 0 frame_A, Message 0 frame_chunkEnd,
       Settled 0 (Inl (ProviderError ''timeout''))] init) ''s1'' =
     Some \<lparr>chunks = [], transcript = []\<rparr>
   \<and> sent (ws (connections (run sample_parse
      [Connection ''s1'', Message 0 frame_A, Message 0 frame_chunkEnd,
       Settled 0 (Inl (ProviderError ''timeout'')),
       Message 0 frame_B, Message 0 frame_chunkEnd, Settled 0 (Inr ''world''),
       Message 0 frame_end, Settled 0 (Inr summary_text)] init) ! 0)) =
     [session_message ''s1'', error_message ''timeout'', partialTranscript ''world'',
      final ''world'' summary_value]"
  by (simp add: run_defs trim_def is_space_def)







section \<open>What a run can and cannot remove from the store\<close>

lemma message_body_cases:
  assumes "message_body P sid m st = Inr (st', susp)"
  shows "(st' = st \<or> (\<exists>s s'. st sid = Some s \<and> st' = st(sid \<mapsto> s')))
         \<and> (\<forall>k. susp = Some k \<longrightarrow> \<not> is_transcription k \<longrightarrow> msg_type P m = Some ''end'')"
proof (cases "P m")
  case (Inl e)
  with assms show ?thesis by (simp add: message_body_def)
next
  case p: (Inr payload)
  show ?thesis
  proof (cases "get_prop payload ''type''")
    case (Inl e)
    with assms p show ?thesis by (simp add: message_body_def)
  next
    case t: (Inr ty)
    consider "ty = Some (JStr ''audioChunk'')" | "ty = Some (JStr ''chunkEnd'')"
      | "ty = Some (JStr ''end'')"
      | "ty \<noteq> Some (JStr ''audioChunk'')" "ty \<noteq> Some (JStr ''chunkEnd'')" "ty \<noteq> Some (JStr ''end'')"
      by blast
    then show ?thesis
    proof cases
      case 1
      with assms p t show ?thesis
        by (auto simp: message_body_def Map_get_def Map_set_def split: option.splits sum.splits)
    next
      case 2
      with assms p t show ?thesis
        by (auto simp: message_body_def Map_get_def Map_set_def Let_def
              split: option.splits sum.splits)
    next
      case 3
      with p t have "msg_type P m = Some ''end''"
        by (simp add: msg_type_def)
      with 3 assms p t show ?thesis
        by (auto simp: message_body_def Map_get_def Let_def split: option.splits)
    next
      case 4
      with assms p t show ?thesis
        by (simp add: message_body_def)
    qed
  qed
qed

lemma on_message_cases:
  assumes "on_message P sid m (st, w) = ((st', w'), susp)"
  shows "(st' = st \<or> (\<exists>s s'. st sid = Some s \<and> st' = st(sid \<mapsto> s')))
         \<and> (\<forall>k. susp = Some k \<longrightarrow> \<not> is_transcription k \<longrightarrow> msg_type P m = Some ''end'')"
proof (cases "message_body P sid m st")
  case (Inl e)
  with assms show ?thesis by (simp add: on_message_def)
next
  case (Inr r)
  obtain st1 susp1 where r: "r = (st1, susp1)" by (cases r)
  with Inr assms have "st1 = st'" and "susp1 = susp"
    by (simp_all add: on_message_def)
  with Inr r message_body_cases [of P sid m st st' susp] show ?thesis by simp
qed

lemma resume_cases:
  assumes "resume P sid k r (st, w) = (st', w')"
  shows "st' = st \<or> (\<exists>s s'. st sid = Some s \<and> st' = st(sid \<mapsto> s'))
         \<or> (\<exists>rq fullText raw. k = Await_completion rq fullText \<and> r = Inr raw
               \<and> st' = st(sid := None))"
proof (cases r)
  case (Inl e)
  with assms show ?thesis by simp
next
  case (Inr t)
  with assms show ?thesis
    by (cases k) (auto simp: Map_get_def Map_set_def Map_delete_def Let_def split: option.splits)
qed

lemma dom_same:
  assumes "st' = st \<or> (\<exists>s s'. st sid = Some s \<and> st' = st(sid \<mapsto> s'))"
  shows "dom st' = dom st"
  using assms by (auto split: if_splits)

lemma step_Message_sessions:
  assumes "not_end P (Message c m)" and "list_all (\<lambda>p. is_transcription (snd p)) (pending S)"
  shows "dom (sessions (step P (Message c m) S)) = dom (sessions S)
         \<and> list_all (\<lambda>p. is_transcription (snd p)) (pending (step P (Message c m) S))"
proof (cases "c < length (connections S)")
  case False
  with assms show ?thesis by (simp add: step.simps)
next
  case True
  obtain st w susp
    where o: "on_message P (sessionId (connections S ! c)) m (sessions S, ws (connections S ! c)) =
                ((st, w), susp)"
    by (metis surj_pair)
  from on_message_cases [OF o]
  have "st = sessions S \<or> (\<exists>s s'. sessions S (sessionId (connections S ! c)) = Some s
            \<and> st = (sessions S)(sessionId (connections S ! c) \<mapsto> s'))"
    and k': "\<forall>k. susp = Some k \<longrightarrow> \<not> is_transcription k \<longrightarrow> msg_type P m = Some ''end''"
    by simp_all
  then have d: "dom st = dom (sessions S)"
    by (intro dom_same)
  from k' assms(1) have k: "\<forall>k. susp = Some k \<longrightarrow> is_transcription k"
    by auto
  show ?thesis
    unfolding step_Message_eq [OF True o]
    using d k assms(2) by (cases susp) simp_all
qed

lemma step_Settled_sessions:
  assumes "list_all (\<lambda>p. is_transcription (snd p)) (pending S)"
  shows "dom (sessions (step P (Settled i r) S)) = dom (sessions S)
         \<and> list_all (\<lambda>p. is_transcription (snd p)) (pending (step P (Settled i r) S))"
proof (cases "i < length (pending S) \<and> fst (pending S ! i) < length (connections S)")
  case False
  with assms show ?thesis by (auto simp: step.simps)
next
  case True
  obtain c k where ck: "pending S ! i = (c, k)" by (cases "pending S ! i")
  with True have c: "c < length (connections S)" and i: "i < length (pending S)" by simp_all
  obtain st w
    where o: "resume P (sessionId (connections S ! c)) k r (sessions S, ws (connections S ! c)) =
                (st, w)"
    by (cases "resume P (sessionId (connections S ! c)) k r (sessions S, ws (connections S ! c))")
  from assms i ck have "is_transcription k"
    by (auto simp: list_all_length)
  with resume_cases [OF o]
  have "st = sessions S \<or> (\<exists>s s'. sessions S (sessionId (connections S ! c)) = Some s
            \<and> st = (sessions S)(sessionId (connections S ! c) \<mapsto> s'))"
    by auto
  then have d: "dom st = dom (sessions S)"
    by (intro dom_same)
  have "set (take i (pending S) @ drop (Suc i) (pending S)) \<subseteq> set (pending S)"
    by (auto dest: in_set_takeD in_set_dropD)
  with assms have "list_all (\<lambda>p. is_transcription (snd p)) (take i (pending S) @ drop (Suc i) (pending S))"
    unfolding list_all_iff by blast
  then show ?thesis
    unfolding step_Settled_eq [OF i ck c o] using d by simp
qed

lemma run_sessions:
  assumes "list_all (not_end P) evs" and "list_all (\<lambda>p. is_transcription (snd p)) (pending S)"
  shows "dom (sessions (run P evs S)) = dom (sessions S) \<union> opened evs"
  using assms
proof (induction evs arbitrary: S)
  case Nil
  then show ?case by (simp add: run_Nil)
next
  case (Cons ev evs)
  let ?S1 = "step P ev S"
  have "list_all (\<lambda>p. is_transcription (snd p)) (pending ?S1)
        \<and> dom (sessions ?S1) \<union> opened evs = dom (sessions S) \<union> opened (ev # evs)"
  proof (cases ev)
    case (Connection sid)
    have "pending (step P (Connection sid) S) = pending S"
      and "dom (sessions (step P (Connection sid) S)) = insert sid (dom (sessions S))"
      by (simp_all add: step.simps Map_set_def)
    with Cons.prems(2) Connection show ?thesis by simp
  next
    case (Message c m)
    with Cons.prems have "not_end P (Message c m)" by simp
    from step_Message_sessions [OF this Cons.prems(2)] Message show ?thesis by simp
  next
    case (Settled i r)
    from step_Settled_sessions [OF Cons.prems(2), of P i r] Settled show ?thesis by simp
  qed
  then have inv: "list_all (\<lambda>p. is_transcription (snd p)) (pending ?S1)"
    and d: "dom (sessions ?S1) \<union> opened evs = dom (sessions S) \<union> opened (ev # evs)"
    by simp_all
  from Cons.prems(1) have "list_all (not_end P) evs" by simp
  from Cons.IH [OF this inv] d show ?case
    by (simp add: run_Cons)
qed

lemma session_ids_update [simp]:
  "map sessionId (cs[c := (cs ! c)\<lparr>ws := w\<rparr>]) = map sessionId cs"
  by (cases "c < length cs") (simp_all add: map_update list_update_same_conv list_update_beyond)

lemma sessionId_nth_update [simp]:
  "j < length cs \<Longrightarrow> sessionId (cs[c := (cs ! c)\<lparr>ws := w\<rparr>] ! j) = sessionId (cs ! j)"
  by (cases "j = c") simp_all

lemma step_removes:
  assumes "sessions S sid = Some s" and "sessions (step P ev S) sid = None"
  shows "\<exists>i c rq fullText raw. ev = Settled i (Inr raw) \<and> i < length (pending S)
           \<and> pending S ! i = (c, Await_completion rq fullText)
           \<and> c < length (connections S) \<and> sessionId (connections S ! c) = sid"
proof (cases ev)
  case (Connection sid')
  with assms show ?thesis
    by (simp add: step.simps Map_set_def split: if_splits)
next
  case (Message c m)
  show ?thesis
  proof (cases "c < length (connections S)")
    case False
    with assms Message show ?thesis by (simp add: step.simps)
  next
    case True
    obtain st w susp
      where o: "on_message P (sessionId (connections S ! c)) m (sessions S, ws (connections S ! c)) =
                  ((st, w), susp)"
      by (metis surj_pair)
    from on_message_cases [OF o] assms(1) have "st sid \<noteq> None"
      by (auto split: if_splits)
    with assms(2) show ?thesis
      unfolding Message step_Message_eq [OF True o] by simp
  qed
next
  case (Settled i r)
  show ?thesis
  proof (cases "i < length (pending S) \<and> fst (pending S ! i) < length (connections S)")
    case False
    with assms Settled show ?thesis by (auto simp: step.simps)
  next
    case True
    obtain c k where ck: "pending S ! i = (c, k)" by (cases "pending S ! i")
    with True have c: "c < length (connections S)" and i: "i < length (pending S)" by simp_all
    obtain st w
      where o: "resume P (sessionId (connections S ! c)) k r (sessions S, ws (connections S ! c)) =
                  (st, w)"
      by (cases "resume P (sessionId (connections S ! c)) k r (sessions S, ws (connections S ! c))")
    from assms(2) have n: "st sid = None"
      unfolding Settled step_Settled_eq [OF i ck c o] by simp
    from resume_cases [OF o] n assms(1)
    obtain rq fullText raw where "k = Await_completion rq fullText" and "r = Inr raw"
      and "sessionId (connections S ! c) = sid"
      by (auto split: if_splits)
    with Settled i ck c show ?thesis
      by blast
  qed
qed

lemma step_keeps_abandoned:
  assumes s: "sessions S sid = Some s"
    and n: "no_finalize_pending S sid"
    and a: "abandoned P sid (session_ids S) (ev # evs)"
  shows "(\<exists>s'. sessions (step P ev S) sid = Some s')
         \<and> no_finalize_pending (step P ev S) sid
         \<and> abandoned P sid (session_ids (step P ev S)) evs"
proof -
  let ?ok = "\<lambda>S p. is_transcription (snd p) \<or>
                (fst p < length (connections S) \<and> sessionId (connections S ! fst p) \<noteq> sid)"
  from n have all: "\<forall>p \<in> set (pending S). ?ok S p"
    by (simp add: no_finalize_pending_def list_all_iff)
  have kept: "\<exists>s'. sessions (step P ev S) sid = Some s'"
  proof (cases "sessions (step P ev S) sid")
    case None
    from step_removes [OF s None] obtain i c rq fullText
      where "i < length (pending S)" and "pending S ! i = (c, Await_completion rq fullText)"
        and "c < length (connections S)" and "sessionId (connections S ! c) = sid"
      by blast
    moreover from this(1) have "pending S ! i \<in> set (pending S)"
      by simp
    ultimately have False
      using all by fastforce
    then show ?thesis ..
  next
    case (Some s')
    then show ?thesis by simp
  qed
  have rest: "no_finalize_pending (step P ev S) sid
              \<and> abandoned P sid (session_ids (step P ev S)) evs"
  proof (cases ev)
    case (Connection sid')
    have "\<forall>p \<in> set (pending S). ?ok (step P (Connection sid') S) p"
      using all by (auto simp: step.simps nth_append)
    then show ?thesis
      using a Connection
      by (simp add: no_finalize_pending_def list_all_iff session_ids_def step.simps)
  next
    case (Message c m)
    show ?thesis
    proof (cases "c < length (connections S)")
      case False
      with n a Message show ?thesis by (simp add: step.simps)
    next
      case True
      obtain st w susp
        where o: "on_message P (sessionId (connections S ! c)) m (sessions S, ws (connections S ! c)) =
                    ((st, w), susp)"
        by (metis surj_pair)
      let ?S1 = "step P (Message c m) S"
      have S1: "?S1 = S\<lparr>sessions := st,
             connections := (connections S)[c := (connections S ! c)\<lparr>ws := w\<rparr>],
             pending := pending S @ (case susp of None \<Rightarrow> [] | Some k \<Rightarrow> [(c, k)])\<rparr>"
        using True o by (rule step_Message_eq)
      have ids: "session_ids ?S1 = session_ids S"
        by (simp add: S1 session_ids_def)
      have same: "?ok ?S1 p = ?ok S p" for p
        by (auto simp: S1)
      have new: "?ok S (c, k)" if "susp = Some k" for k
      proof (cases "is_transcription k")
        case True
        then show ?thesis by simp
      next
        case False
        with on_message_cases [OF o] that have "msg_type P m = Some ''end''"
          by simp
        with a Message True have "sessionId (connections S ! c) \<noteq> sid"
          by (simp add: session_ids_def)
        with True show ?thesis by simp
      qed
      have "\<forall>p \<in> set (pending ?S1). ?ok S p"
        using all new by (cases susp) (auto simp: S1)
      then have "no_finalize_pending ?S1 sid"
        by (simp only: no_finalize_pending_def list_all_iff same)
      with a Message ids show ?thesis
        by simp
    qed
  next
    case (Settled i r)
    show ?thesis
    proof (cases "i < length (pending S) \<and> fst (pending S ! i) < length (connections S)")
      case False
      with n a Settled show ?thesis by (auto simp: step.simps)
    next
      case True
      obtain c k where ck: "pending S ! i = (c, k)" by (cases "pending S ! i")
      with True have c: "c < length (connections S)" and i: "i < length (pending S)" by simp_all
      obtain st w
        where o: "resume P (sessionId (connections S ! c)) k r (sessions S, ws (connections S ! c)) =
                    (st, w)"
        by (cases "resume P (sessionId (connections S ! c)) k r (sessions S, ws (connections S ! c))")
      let ?S1 = "step P (Settled i r) S"
      have S1: "?S1 = S\<lparr>sessions := st,
             connections := (connections S)[c := (connections S ! c)\<lparr>ws := w\<rparr>],
             pending := take i (pending S) @ drop (Suc i) (pending S)\<rparr>"
        using i ck c o by (rule step_Settled_eq)
      have ids: "session_ids ?S1 = session_ids S"
        by (simp add: S1 session_ids_def)
      have same: "?ok ?S1 p = ?ok S p" for p
        by (auto simp: S1)
      have "set (pending ?S1) \<subseteq> set (pending S)"
        by (auto simp: S1 dest: in_set_takeD in_set_dropD)
      with all have "\<forall>p \<in> set (pending ?S1). ?ok S p"
        by blast
      then have "no_finalize_pending ?S1 sid"
        by (simp only: no_finalize_pending_def list_all_iff same)
      with a Settled ids show ?thesis
        by simp
    qed
  qed
  from kept rest show ?thesis
    by simp
qed

lemma run_keeps_abandoned:
  assumes "sessions S sid = Some s"
    and "no_finalize_pending S sid"
    and "abandoned P sid (session_ids S) evs"
  shows "\<exists>s'. sessions (run P evs S) sid = Some s'"
  using assms
proof (induction evs arbitrary: S s)
  case Nil
  then show ?case by (simp add: run_Nil)
next
  case (Cons ev evs)
  from step_keeps_abandoned [OF Cons.prems]
  obtain s1 where "sessions (step P ev S) sid = Some s1"
    and "no_finalize_pending (step P ev S) sid"
    and "abandoned P sid (session_ids (step P ev S)) evs"
    by blast
  from Cons.IH [OF this] show ?case
    by (simp add: run_Cons)
qed

text \<open>
  C8 (as amended). A session is deleted when its finalize completes, and by nothing else:
  a step of the server removes a session from the store only when it settles, with a
  response, the completion call of a connection of that very session. The code sets no
  timer and has no idle timeout, so a session on whose connections no \<open>end\<close> frame arrives
  (and none of whose finalizes was pending) is never deleted, whatever the other
  sessions do and however many of them finalize. In a run in which no \<open>end\<close> frame is
  handled at all, the store holds every session that was in it and every session opened
  since, and grows with each connection that is abandoned.
\<close>

theorem sessions_deleted_only_by_finalize:
  "(c < length (connections S) \<and> sessions S (sessionId (connections S ! c)) = Some s
      \<and> msg_type P m = Some ''end'' \<longrightarrow>
      sessions (run P [Message c m, Settled (length (pending S)) (Inr raw)] S)
        (sessionId (connections S ! c)) = None)
   \<and> (sessions S sid = Some s' \<and> sessions (step P ev S) sid = None \<longrightarrow>
      (\<exists>i c' rq fullText raw'. ev = Settled i (Inr raw') \<and> i < length (pending S)
         \<and> pending S ! i = (c', Await_completion rq fullText)
         \<and> c' < length (connections S) \<and> sessionId (connections S ! c') = sid))
   \<and> (sessions S sid = Some s' \<and> no_finalize_pending S sid
      \<and> abandoned P sid (session_ids S) evs' \<longrightarrow>
      (\<exists>s''. sessions (run P evs' S) sid = Some s''))
   \<and> (list_all (not_end P) evs \<and> list_all (\<lambda>p. is_transcription (snd p)) (pending S) \<longrightarrow>
      dom (sessions (run P evs S)) = dom (sessions S) \<union> opened evs)"
proof -
  have "sessions (run P [Message c m, Settled (length (pending S)) (Inr raw)] S)
          (sessionId (connections S ! c)) = None"
    if "c < length (connections S)" and "sessions S (sessionId (connections S ! c)) = Some s"
      and "msg_type P m = Some ''end''"
    using finalize_run [OF that] by (simp add: Map_delete_def)
  then show ?thesis
    using run_sessions [of P evs S] step_removes [of S sid s' P ev]
      run_keeps_abandoned [of S sid s' P evs']
    by blast
qed

theorem sessions_deleted_only_by_finalize_witness:
  "0 < length (connections (run sample_parse [Connection ''s1''] init))
   \<and> sessions (run sample_parse [Connection ''s1''] init)
        (sessionId (connections (run sample_parse [Connection ''s1''] init) ! 0)) =
        Some \<lparr>chunks = [], transcript = []\<rparr>
   \<and> msg_type sample_parse frame_end = Some ''end''
   \<and> sessions (run sample_parse
        [Message 0 frame_end,
         Settled (length (pending (run sample_parse [Connection ''s1''] init))) (Inr summary_text)]
        (run sample_parse [Connection ''s1''] init)) ''s1'' = None
   \<and> sessions (run sample_parse [Connection ''s1'', Message 0 frame_end] init) ''s1'' =
        Some \<lparr>chunks = [], transcript = []\<rparr>
   \<and> sessions (step sample_parse (Settled 0 (Inr summary_text))
        (run sample_parse [Connection ''s1'', Message 0 frame_end] init)) ''s1'' = None
   \<and> (\<exists>i c' rq fullText raw'.
         Settled 0 (Inr summary_text) = Settled i (Inr raw')
         \<and> i < length (pending (run sample_parse [Connection ''s1'', Message 0 frame_end] init))
         \<and> pending (run sample_parse [Connection ''s1'', Message 0 frame_end] init) ! i =
             (c', Await_completion rq fullText)
         \<and> c' < length (connections (run sample_parse [Connection ''s1'', Message 0 frame_end] init))
         \<and> sessionId (connections (run sample_parse [Connection ''s1'', Message 0 frame_end] init) ! c') =
             ''s1'')
   \<and> pending (run sample_parse [Connection ''s1'', Message 0 frame_end] init) ! 0 =
        (0, Await_completion (Responses_create ''gpt-4o-mini'' (stream_prompt [])) [])
   \<and> no_finalize_pending (run sample_parse [Connection ''s1''] init) ''s1''
   \<and> abandoned sample_parse ''s1'' (session_ids (run sample_parse [Connection ''s1''] init))
        [Message 0 frame_A, Connection ''s2'', Message 1 frame_end, Message 0 frame_chunkEnd,
         Settled 0 (Inr summary_text), Settled 0 (Inr ''hello'')]
   \<and> (\<exists>s''. sessions (run sample_parse
        [Message 0 frame_A, Connection ''s2'', Message 1 frame_end, Message 0 frame_chunkEnd,
         Settled 0 (Inr summary_text), Settled 0 (Inr ''hello'')]
        (run sample_parse [Connection ''s1''] init)) ''s1'' = Some s'')
   \<and> sessions (run sample_parse
        [Message 0 frame_A, Connection ''s2'', Message 1 frame_end, Message 0 frame_chunkEnd,
         Settled 0 (Inr summary_text), Settled 0 (Inr ''hello'')]
        (run sample_parse [Connection ''s1''] init)) ''s1'' =
        Some \<lparr>chunks = [], transcript = '' hello''\<rparr>
   \<and> sessions (run sample_parse
        [Message 0 frame_A, Connection ''s2'', Message 1 frame_end, Message 0 frame_chunkEnd,
         Settled 0 (Inr summary_text), Settled 0 (Inr ''hello'')]
        (run sample_parse [Connection ''s1''] init)) ''s2'' = None
   \<and> list_all (not_end sample_parse)
        [Message 0 frame_A, Connection ''s2'', Message 0 frame_chunkEnd, Connection ''s3'',
         Settled 0 (Inr ''hello''), Message 1 frame_ping]
   \<and> list_all (\<lambda>p. is_transcription (snd p)) (pending (run sample_parse [Connection ''s1''] init))
   \<and> dom (sessions (run sample_parse
        [Message 0 frame_A, Connection ''s2'', Message 0 frame_chunkEnd, Connection ''s3'',
         Settled 0 (Inr ''hello''), Message 1 frame_ping]
        (run sample_parse [Connection ''s1''] init))) = {''s1'', ''s2'', ''s3''}"
proof -
  let ?S = "run sample_parse [Connection ''s1''] init"
  let ?E = "run sample_parse [Connection ''s1'', Message 0 frame_end] init"
  let ?evs = "[Message 0 frame_A, Connection ''s2'', Message 0 frame_chunkEnd, Connection ''s3'',
         Settled 0 (Inr ''hello''), Message 1 frame_ping]"
  let ?evs' = "[Message 0 frame_A, Connection ''s2'', Message 1 frame_end, Message 0 frame_chunkEnd,
         Settled 0 (Inr summary_text), Settled 0 (Inr ''hello'')]"
  have h1: "0 < length (connections ?S)"
    by (simp add: run_defs)
  have h2: "sessions ?S (sessionId (connections ?S ! 0)) = Some \<lparr>chunks = [], transcript = []\<rparr>"
    by (simp add: run_defs)
  have h3: "msg_type sample_parse frame_end = Some ''end''"
    by (simp add: sample_types)
  have h4: "list_all (not_end sample_parse) ?evs"
    by (simp add: sample_types)
  have h5: "list_all (\<lambda>p. is_transcription (snd p)) (pending ?S)"
    by (simp add: run_defs)
  have h6: "sessions ?S ''s1'' = Some \<lparr>chunks = [], transcript = []\<rparr>"
    by (simp add: run_defs)
  have h7: "no_finalize_pending ?S ''s1''"
    by (simp add: no_finalize_pending_def run_defs)
  have h8: "abandoned sample_parse ''s1'' (session_ids ?S) ?evs'"
    by (simp add: session_ids_def run_defs sample_types)
  have e1: "sessions ?E ''s1'' = Some \<lparr>chunks = [], transcript = []\<rparr>"
    and e2: "sessions (step sample_parse (Settled 0 (Inr summary_text)) ?E) ''s1'' = None"
    and e3: "pending ?E ! 0 =
        (0, Await_completion (Responses_create ''gpt-4o-mini'' (stream_prompt [])) [])"
    by (simp_all add: run_defs trim_Nil)
  have v1: "sessions (run sample_parse ?evs' ?S) ''s1'' = Some \<lparr>chunks = [], transcript = '' hello''\<rparr>"
    and v2: "sessions (run sample_parse ?evs' ?S) ''s2'' = None"
    by (simp_all add: run_defs trim_Nil sample_types)
  have i0: "sessionId (connections ?S ! 0) = ''s1''" and d0: "dom (sessions ?S) = {''s1''}"
    by (simp_all add: run_defs)
  from sessions_deleted_only_by_finalize
         [of 0 ?S "\<lparr>chunks = [], transcript = []\<rparr>" sample_parse frame_end summary_text
             "''s1''" "\<lparr>chunks = [], transcript = []\<rparr>" "Message 0 frame_ping" ?evs' ?evs]
  have a: "sessions (run sample_parse
          [Message 0 frame_end, Settled (length (pending ?S)) (Inr summary_text)] ?S) ''s1'' = None"
    and d: "dom (sessions (run sample_parse ?evs ?S)) = {''s1''} \<union> opened ?evs"
    and k: "\<exists>s''. sessions (run sample_parse ?evs' ?S) ''s1'' = Some s''"
    using h1 h2 h3 h4 h5 h6 h7 h8 by (simp_all only: i0 d0 simp_thms)
  from sessions_deleted_only_by_finalize
         [of _ ?E _ sample_parse _ _ "''s1''" "\<lparr>chunks = [], transcript = []\<rparr>"
             "Settled 0 (Inr summary_text)"] e1 e2
  have b: "\<exists>i c' rq fullText raw'.
         Settled 0 (Inr summary_text) = Settled i (Inr raw')
         \<and> i < length (pending ?E) \<and> pending ?E ! i = (c', Await_completion rq fullText)
         \<and> c' < length (connections ?E) \<and> sessionId (connections ?E ! c') = ''s1''"
    by blast
  have "opened ?evs = {''s2'', ''s3''}"
    by auto
  with a b d k show ?thesis
    using h1 h2 h3 h4 h5 h7 h8 e1 e2 e3 v1 v2 by (simp only: i0) blast
qed

text \<open>
  C8 as stated fails: the client of \<open>s1\<close> flushes once and never sends \<open>end\<close>, the client
  of \<open>s2\<close> sends nothing at all; whatever else the server then handles, both sessions are
  still in the store.
\<close>

theorem abandoned_sessions_stay:
  "map_option transcript (sessions (run sample_parse
      [Connection ''s1'', Connection ''s2'', Message 0 frame_A, Message 0 frame_chunkEnd,
       Settled 0 (Inr ''hello''), Connection ''s3'', Message 2 frame_end,
       Settled 0 (Inr summary_text)] init) ''s1'') = Some '' hello''
   \<and> map_option transcript (sessions (run sample_parse
      [Connection ''s1'', Connection ''s2'', Message 0 frame_A, Message 0 frame_chunkEnd,
       Settled 0 (Inr ''hello''), Connection ''s3'', Message 2 frame_end,
       Settled 0 (Inr summary_text)] init) ''s2'') = Some []
   \<and> sessions (run sample_parse
      [Connection ''s1'', Connection ''s2'', Message 0 frame_A, Message 0 frame_chunkEnd,
       Settled 0 (Inr ''hello''), Connection ''s3'', Message 2 frame_end,
       Settled 0 (Inr summary_text)] init) ''s3'' = None"
  by (simp add: run_defs)



lemma step_absent:
  assumes "sessions S sid = None" and "ev \<noteq> Connection sid"
  shows "sessions (step P ev S) sid = None"
proof (cases ev)
  case (Connection sid')
  with assms show ?thesis
    by (auto simp: step.simps Map_set_def)
next
  case (Message c m)
  show ?thesis
  proof (cases "c < length (connections S)")
    case False
    with assms Message show ?thesis by (simp add: step.simps)
  next
    case True
    obtain st w susp
      where o: "on_message P (sessionId (connections S ! c)) m (sessions S, ws (connections S ! c)) =
                  ((st, w), susp)"
      by (metis surj_pair)
    from on_message_cases [OF o] assms(1) have "st sid = None"
      by auto
    then show ?thesis
      unfolding Message step_Message_eq [OF True o] by simp
  qed
next
  case (Settled i r)
  show ?thesis
  proof (cases "i < length (pending S) \<and> fst (pending S ! i) < length (connections S)")
    case False
    with assms Settled show ?thesis by (auto simp: step.simps)
  next
    case True
    obtain c k where ck: "pending S ! i = (c, k)" by (cases "pending S ! i")
    with True have c: "c < length (connections S)" and i: "i < length (pending S)" by simp_all
    obtain st w
      where o: "resume P (sessionId (connections S ! c)) k r (sessions S, ws (connections S ! c)) =
                  (st, w)"
      by (cases "resume P (sessionId (connections S ! c)) k r (sessions S, ws (connections S ! c))")
    from resume_cases [OF o] assms(1) have "st sid = None"
      by auto
    then show ?thesis
      unfolding Settled step_Settled_eq [OF i ck c o] by simp
  qed
qed

lemma run_absent:
  assumes "sessions S sid = None" and "Connection sid \<notin> set evs"
  shows "sessions (run P evs S) sid = None"
  using assms
proof (induction evs arbitrary: S)
  case Nil
  then show ?case by (simp add: run_Nil)
next
  case (Cons ev evs)
  from Cons.prems have "sessions (step P ev S) sid = None"
    by (intro step_absent) auto
  with Cons show ?case
    by (simp add: run_Cons)
qed

text \<open>
  C9. \<open>sessions.get\<close> gives \<open>undefined\<close> for an identifier that was never created (no
  connection of the run drew it), and for an identifier that was deleted, from the
  deletion on and through every later event, as long as no new connection draws the same
  identifier again: a deleted session never comes back.
\<close>

theorem get_absent_session:
  assumes "Connection sid \<notin> set evs"
  shows "Map_get (sessions (run P evs init)) sid = None
         \<and> Map_get (sessions (run P evs (S\<lparr>sessions := Map_delete (sessions S) sid\<rparr>))) sid = None"
proof -
  have "sessions init sid = None"
    by (simp add: init_def)
  moreover have "sessions (S\<lparr>sessions := Map_delete (sessions S) sid\<rparr>) sid = None"
    by (simp add: Map_delete_def)
  ultimately show ?thesis
    using assms by (simp add: Map_get_def run_absent)
qed

theorem get_absent_session_witness:
  "Connection ''s1'' \<notin> set [Message 0 frame_A, Connection ''s2'', Message 0 frame_chunkEnd,
       Settled 0 (Inr ''hello''), Message 0 frame_end, Settled 0 (Inr summary_text)]
   \<and> Map_get (sessions (run sample_parse
        [Message 0 frame_A, Connection ''s2'', Message 0 frame_chunkEnd,
         Settled 0 (Inr ''hello''), Message 0 frame_end, Settled 0 (Inr summary_text)] init))
        ''s1'' = None
   \<and> Map_get (sessions (run sample_parse
        [Message 0 frame_A, Connection ''s2'', Message 0 frame_chunkEnd,
         Settled 0 (Inr ''hello''), Message 0 frame_end, Settled 0 (Inr summary_text)]
        ((run sample_parse [Connection ''s1''] init)
           \<lparr>sessions := Map_delete (sessions (run sample_parse [Connection ''s1''] init)) ''s1''\<rparr>)))
        ''s1'' = None"
proof -
  have h: "Connection ''s1'' \<notin> set [Message 0 frame_A, Connection ''s2'', Message 0 frame_chunkEnd,
       Settled 0 (Inr ''hello''), Message 0 frame_end, Settled 0 (Inr summary_text)]"
    by simp
  from get_absent_session [OF h, of sample_parse "run sample_parse [Connection ''s1''] init"]
  show ?thesis
    using h by blast
qed

text \<open>
  C10 (as amended). A frame that parses to a JSON value other than \<open>null\<close> and whose
  \<open>type\<close> is none of \<open>audioChunk\<close>, \<open>chunkEnd\<close> and \<open>end\<close> (a missing \<open>type\<close> and a value
  that is no object included) is ignored: the whole state of the server, with the chunk
  buffer, the transcript and the store entry of the session, the pending calls and what
  the socket has been sent, is as it was.
\<close>

theorem unknown_type_ignored:
  assumes "P msg = Inr payload"
    and "payload \<noteq> JNull"
    and "get_prop payload ''type'' \<noteq> Inr (Some (JStr ''audioChunk''))"
    and "get_prop payload ''type'' \<noteq> Inr (Some (JStr ''chunkEnd''))"
    and "get_prop payload ''type'' \<noteq> Inr (Some (JStr ''end''))"
  shows "step P (Message c msg) S = S"
proof (cases "c < length (connections S)")
  case False
  then show ?thesis by (simp add: step.simps)
next
  case True
  from assms(2) obtain ty where t: "get_prop payload ''type'' = Inr ty"
    by (cases payload) simp_all
  with assms(3,4,5) have "ty \<noteq> Some (JStr ''audioChunk'')" "ty \<noteq> Some (JStr ''chunkEnd'')"
    "ty \<noteq> Some (JStr ''end'')"
    by simp_all
  then have "on_message P (sessionId (connections S ! c)) msg (sessions S, ws (connections S ! c)) =
          ((sessions S, ws (connections S ! c)), None)"
    by (simp add: on_message_def message_body_def assms(1) t)
  from step_Message_eq [OF True this] show ?thesis
    by simp
qed

theorem unknown_type_ignored_witness:
  "sample_parse frame_ping = Inr (JObj [(''type'', JStr ''ping'')])
   \<and> JObj [(''type'', JStr ''ping'')] \<noteq> JNull
   \<and> get_prop (JObj [(''type'', JStr ''ping'')]) ''type'' \<noteq> Inr (Some (JStr ''audioChunk''))
   \<and> get_prop (JObj [(''type'', JStr ''ping'')]) ''type'' \<noteq> Inr (Some (JStr ''chunkEnd''))
   \<and> get_prop (JObj [(''type'', JStr ''ping'')]) ''type'' \<noteq> Inr (Some (JStr ''end''))
   \<and> step sample_parse (Message 0 frame_ping)
        (run sample_parse [Connection ''s1'', Message 0 frame_A] init) =
      run sample_parse [Connection ''s1'', Message 0 frame_A] init"
proof -
  have h1: "sample_parse frame_ping = Inr (JObj [(''type'', JStr ''ping'')])"
    by (simp add: sample_parse_frames)
  have h2: "JObj [(''type'', JStr ''ping'')] \<noteq> JNull"
    by simp
  have h3: "get_prop (JObj [(''type'', JStr ''ping'')]) ''type'' \<noteq> Inr (Some (JStr ''audioChunk''))"
    and h4: "get_prop (JObj [(''type'', JStr ''ping'')]) ''type'' \<noteq> Inr (Some (JStr ''chunkEnd''))"
    and h5: "get_prop (JObj [(''type'', JStr ''ping'')]) ''type'' \<noteq> Inr (Some (JStr ''end''))"
    by simp_all
  from unknown_type_ignored [where P = sample_parse and msg = frame_ping, OF h1 h2 h3 h4 h5]
  show ?thesis
    using h1 h2 h3 h4 h5 by blast
qed

text \<open>
  C10 as stated fails: the frame \<open>null\<close> parses as JSON and has none of the three types,
  but reading \<open>type\<close> of \<open>null\<close> throws, and the handler answers with an \<open>error\<close> message.
\<close>

theorem null_frame_answered:
  "sample_parse frame_null = Inr JNull
   \<and> sent (ws (connections (run sample_parse [Connection ''s1''] init) ! 0)) =
       [session_message ''s1'']
   \<and> sent (ws (connections (run sample_parse [Connection ''s1'', Message 0 frame_null] init) ! 0)) =
       [session_message ''s1'', error_message (cannot_read ''null'' ''type'')]"
  by (simp add: run_defs)

end
